theory Spec2Isabelle
  imports
    Main
    "HOL-Library.Word"
    "HOL-Library.Multiset"
    "HOL-Library.AList"
    "HOL-Library.Char_ord"
    "HOL-Library.List_Lexorder"
begin

unbundle bit_operations_syntax

section \<open>The Prometheus output of gnmic: event translation and the expiring metric store\<close>

text \<open>
  A shallow embedding of \<^verbatim>\<open>outputs/prometheus_output/prometheus_output.go\<close>.
  Go strings are byte sequences, so they are \<open>string\<close> (a list of 8-bit characters) and
  \<open><\<close> on them is the bytewise lexicographic order, as in Go.
  A \<^verbatim>\<open>time.Time\<close> is the instant it denotes, an \<open>int\<close> of nanoseconds since the Unix
  epoch; a \<^verbatim>\<open>time.Duration\<close> is an \<open>int\<close> of nanoseconds; \<^verbatim>\<open>t.Before(u)\<close> is \<open>t < u\<close>
  and \<^verbatim>\<open>t.Add(d)\<close> is \<open>t + d\<close>. A nil pointer dereference is the result \<open>None\<close>.
\<close>

subsection \<open>Data\<close>

record labelPair =
  Name :: string
  Value :: string

text \<open>
  The field \<^verbatim>\<open>labels []*labelPair\<close> is a slice: a reference to a backing array that the
  samples built from one event share, and that \<^verbatim>\<open>calculateKey\<close> sorts in place.
  The model keeps the arrays in an explicit store and a sample holds the address of its array.
  \<open>pvalue\<close> is the field \<^verbatim>\<open>value\<close>; \<open>'f\<close> stands for \<^verbatim>\<open>float64\<close>.
\<close>

record 'f promMetric =
  name :: string
  labels :: nat
  time :: "int option"
  pvalue :: 'f
  addedAt :: int

text \<open>The fields of \<^verbatim>\<open>Config\<close> that the functions below read or write.\<close>

record Config =
  Listen :: string
  Path :: string
  Expiration :: int
  MetricPrefix :: string
  AppendSubscriptionName :: bool
  ExportTimestamps :: bool
  StringsAsLabels :: bool
  address :: string
  port :: int

text \<open>
  The dynamic type of an \<^verbatim>\<open>interface{}\<close> event value: one constructor for each case of the
  type switch in \<^verbatim>\<open>getFloat\<close>, and \<open>Other\<close> for every other dynamic type (bool, slices, maps,
  nil, ...); \<open>IntN\<close> and \<open>UintN\<close> are \<^verbatim>\<open>int\<close> and \<^verbatim>\<open>uint\<close>. A \<^verbatim>\<open>float32\<close> is kept as the \<^verbatim>\<open>float64\<close> it widens to.
\<close>

datatype 'f scalar =
    Float64 'f | Float32 'f
  | Int64 "64 word" | Int32 "32 word" | Int16 "16 word" | Int8 "8 word"
  | Uint64 "64 word" | Uint32 "32 word" | Uint16 "16 word" | Uint8 "8 word"
  | IntN "64 word" | UintN "64 word"
  | Str string
  | Other

text \<open>
  \<^verbatim>\<open>formatters.EventMsg\<close>, as the output uses it. A Go map is iterated in an order the
  language leaves open: \<open>Tags\<close> and \<open>Values\<close> are association lists with distinct keys,
  listed in the order in which the \<^verbatim>\<open>range\<close> loop meets them. The two loops over
  \<^verbatim>\<open>ev.Values\<close>, in \<^verbatim>\<open>getLabels\<close> and in \<^verbatim>\<open>worker\<close>, need not meet the values in the
  same order; nothing proved below rests on their doing so.
\<close>

record 'f EventMsg =
  evName :: string
  Timestamp :: int
  Tags :: "(string \<times> string) list"
  Values :: "(string \<times> 'f scalar) list"

datatype error = NotNumeric | UnsupportedType | InvalidConfiguration

text \<open>
  The floating-point operations of the Go runtime and of \<^verbatim>\<open>strconv\<close> that the code calls:
  \<^verbatim>\<open>strconv.ParseFloat(s, 64)\<close> (\<open>None\<close> when it returns an error), the conversion
  \<^verbatim>\<open>float64(i)\<close> of an integer, and the constant \<^verbatim>\<open>1.0\<close>.
\<close>

record 'f float_ops =
  ParseFloat :: "string \<Rightarrow> 'f option"
  ofInt :: "int \<Rightarrow> 'f"
  one :: 'f

text \<open>
  The output's state: \<open>entries\<close> is the map \<^verbatim>\<open>p.entries\<close> (an association list with
  distinct keys, in iteration order), \<open>arrays\<close> the store of label arrays and \<open>nextArr\<close>
  the address of the next array to be allocated.
\<close>

record 'f PrometheusOutput =
  entries :: "(64 word \<times> 'f promMetric) list"
  arrays :: "nat \<Rightarrow> labelPair list"
  nextArr :: nat

subsection \<open>Names\<close>

text \<open>The characters the class \<^verbatim>\<open>[a-zA-Z0-9_]\<close> holds.\<close>

definition nameChar :: "char \<Rightarrow> bool" where
  "nameChar c \<longleftrightarrow>
     (CHR ''a'' \<le> c \<and> c \<le> CHR ''z'') \<or> (CHR ''A'' \<le> c \<and> c \<le> CHR ''Z'') \<or>
     (CHR ''0'' \<le> c \<and> c \<le> CHR ''9'') \<or> c = CHR ''_''"

text \<open>
  \<^verbatim>\<open>p.metricRegex.ReplaceAllString(s, "_")\<close> for \<^verbatim>\<open>metricNameRegex = "[^a-zA-Z0-9_]+"\<close>:
  every maximal run of characters outside the class becomes one underscore. A byte
  above 127 is outside the class, alone or as part of a multi-byte rune.
\<close>

function ReplaceAllString :: "string \<Rightarrow> string" where
  "ReplaceAllString [] = []"
| "ReplaceAllString (c # cs) =
     (if nameChar c then c # ReplaceAllString cs
      else CHR ''_'' # ReplaceAllString (dropWhile (\<lambda>d. \<not> nameChar d) cs))"
  by pat_completeness auto
termination
  by (relation "measure length") (auto simp: le_imp_less_Suc length_dropWhile_le)

text \<open>\<^verbatim>\<open>filepath.Base\<close> with the separator \<^verbatim>\<open>/\<close> and no volume names.\<close>

definition filepath_Base :: "string \<Rightarrow> string" where
  "filepath_Base path =
     (if path = [] then ''.''
      else let stripped = rev (dropWhile (\<lambda>c. c = CHR ''/'') (rev path));
               elem = rev (takeWhile (\<lambda>c. c \<noteq> CHR ''/'') (rev stripped))
           in if elem = [] then ''/'' else elem)"

definition TrimRight :: "string \<Rightarrow> char \<Rightarrow> string" where
  "TrimRight s c = rev (dropWhile (\<lambda>d. d = c) (rev s))"

definition TrimLeft :: "string \<Rightarrow> char \<Rightarrow> string" where
  "TrimLeft s c = dropWhile (\<lambda>d. d = c) s"

definition metricName :: "Config \<Rightarrow> string \<Rightarrow> string \<Rightarrow> string" where
  "metricName cfg measName valueName =
     (if MetricPrefix cfg \<noteq> [] then ReplaceAllString (MetricPrefix cfg) @ ''_'' else []) @
     (if AppendSubscriptionName cfg
      then TrimRight (ReplaceAllString measName) (CHR ''_'') @ ''_'' else []) @
     TrimLeft (ReplaceAllString valueName) (CHR ''_'')"

subsection \<open>Value coercion\<close>

text \<open>
  \<^verbatim>\<open>getFloat\<close>. With an error the Go function also returns NaN, which no caller reads.
\<close>

fun getFloat :: "'f float_ops \<Rightarrow> 'f scalar \<Rightarrow> error + 'f" where
  "getFloat ops (Float64 i) = Inr i"
| "getFloat ops (Float32 i) = Inr i"
| "getFloat ops (Int64 i) = Inr (ofInt ops (sint i))"
| "getFloat ops (Int32 i) = Inr (ofInt ops (sint i))"
| "getFloat ops (Int16 i) = Inr (ofInt ops (sint i))"
| "getFloat ops (Int8 i) = Inr (ofInt ops (sint i))"
| "getFloat ops (Uint64 i) = Inr (ofInt ops (uint i))"
| "getFloat ops (Uint32 i) = Inr (ofInt ops (uint i))"
| "getFloat ops (Uint16 i) = Inr (ofInt ops (uint i))"
| "getFloat ops (Uint8 i) = Inr (ofInt ops (uint i))"
| "getFloat ops (IntN i) = Inr (ofInt ops (sint i))"
| "getFloat ops (UintN i) = Inr (ofInt ops (uint i))"
| "getFloat ops (Str i) = (case ParseFloat ops i of None \<Rightarrow> Inl NotNumeric | Some f \<Rightarrow> Inr f)"
| "getFloat ops Other = Inl UnsupportedType"

subsection \<open>Label projection\<close>

text \<open>
  The first loop of \<^verbatim>\<open>getLabels\<close>, over \<^verbatim>\<open>ev.Tags\<close>: the state is the slice \<^verbatim>\<open>labels\<close>
  and the set \<^verbatim>\<open>addedLabels\<close>.
\<close>

fun tagLabels ::
  "(string \<times> string) list \<Rightarrow> labelPair list \<times> string set \<Rightarrow> labelPair list \<times> string set"
where
  "tagLabels [] acc = acc"
| "tagLabels ((k, v) # kvs) (lbls, addedLabels) =
     (let labelName = ReplaceAllString (filepath_Base k)
      in if labelName \<in> addedLabels then tagLabels kvs (lbls, addedLabels)
         else tagLabels kvs
                (lbls @ [\<lparr>Name = labelName, Value = v\<rparr>], insert labelName addedLabels))"

text \<open>
  The second loop, over \<^verbatim>\<open>ev.Values\<close>: it reads \<^verbatim>\<open>addedLabels\<close> and appends to
  \<^verbatim>\<open>labels\<close>.
\<close>

fun valueLabels ::
  "'f float_ops \<Rightarrow> string set \<Rightarrow> (string \<times> 'f scalar) list \<Rightarrow> labelPair list \<Rightarrow> labelPair list"
where
  "valueLabels ops addedLabels [] lbls = lbls"
| "valueLabels ops addedLabels ((k, v) # kvs) lbls =
     (case getFloat ops v of
        Inr f \<Rightarrow> valueLabels ops addedLabels kvs lbls
      | Inl err \<Rightarrow>
          (case v of
             Str vs \<Rightarrow>
               (let labelName = ReplaceAllString (filepath_Base k)
                in if labelName \<in> addedLabels then valueLabels ops addedLabels kvs lbls
                   else valueLabels ops addedLabels kvs
                          (lbls @ [\<lparr>Name = labelName, Value = vs\<rparr>]))
           | _ \<Rightarrow> valueLabels ops addedLabels kvs lbls))"

definition getLabels :: "Config \<Rightarrow> 'f float_ops \<Rightarrow> 'f EventMsg \<Rightarrow> labelPair list" where
  "getLabels cfg ops ev =
     (let (lbls, addedLabels) = tagLabels (Tags ev) ([], {})
      in if \<not> StringsAsLabels cfg then lbls
         else valueLabels ops addedLabels (Values ev) lbls)"

subsection \<open>Metric identity\<close>

text \<open>The 64-bit FNV-1a hash of \<^verbatim>\<open>hash/fnv\<close>: \<^verbatim>\<open>New64a\<close> and \<^verbatim>\<open>Write\<close>.\<close>

definition New64a :: "64 word" where
  "New64a = 14695981039346656037"

definition fnvWrite :: "string \<Rightarrow> 64 word \<Rightarrow> 64 word" where
  "fnvWrite s h = fold (\<lambda>c h. (h XOR of_char c) * 1099511628211) s h"

text \<open>
  \<^verbatim>\<open>sort.Slice\<close> promises a permutation of the slice that is ordered by the given
  \<^verbatim>\<open>less\<close>, here \<^verbatim>\<open>Name <\<close>, and promises no stability. The functions below take the
  sorting function as the parameter \<open>srt\<close>; \<open>sortSlice\<close> is what every theorem
  assumes of it.
\<close>

definition sortSlice :: "(labelPair list \<Rightarrow> labelPair list) \<Rightarrow> bool" where
  "sortSlice srt \<longleftrightarrow> (\<forall>xs. mset (srt xs) = mset xs \<and> sorted (map Name (srt xs)))"

definition writeLabel :: "labelPair \<Rightarrow> 64 word \<Rightarrow> 64 word" where
  "writeLabel label h = fnvWrite '':'' (fnvWrite (Value label) (fnvWrite '':'' (fnvWrite (Name label) h)))"

text \<open>
  \<^verbatim>\<open>calculateKey\<close> returns the key and, as its side effect, leaves the sample's label
  array sorted: the second component is the store of arrays afterwards.
\<close>

definition calculateKey ::
  "(labelPair list \<Rightarrow> labelPair list) \<Rightarrow> (nat \<Rightarrow> labelPair list) \<Rightarrow> 'f promMetric
     \<Rightarrow> 64 word \<times> (nat \<Rightarrow> labelPair list)"
where
  "calculateKey srt arrs p =
     (let h = fnvWrite (name p) New64a
      in if length (arrs (labels p)) > 0
         then let h1 = fnvWrite '':'' h;
                  arrs1 = arrs(labels p := srt (arrs (labels p)))
              in (fold writeLabel (arrs1 (labels p)) h1, arrs1)
         else (h, arrs))"

subsection \<open>The ingestion loop\<close>

text \<open>
  One pass of the loop over \<^verbatim>\<open>ev.Values\<close> in \<^verbatim>\<open>worker\<close>, in three parts.
  \<open>workerValue\<close> is the value \<^verbatim>\<open>v\<close> with which the pass goes on, \<open>None\<close> when it
  ends at \<^verbatim>\<open>continue\<close>.
\<close>

definition workerValue :: "Config \<Rightarrow> 'f float_ops \<Rightarrow> 'f scalar \<Rightarrow> 'f option" where
  "workerValue cfg ops val =
     (case getFloat ops val of
        Inr v \<Rightarrow> Some v
      | Inl err \<Rightarrow> if \<not> StringsAsLabels cfg then None else Some (one ops))"

text \<open>The sample \<^verbatim>\<open>pm\<close>; \<open>a\<close> is the address of the event's label array.\<close>

definition workerMetric ::
  "Config \<Rightarrow> int \<Rightarrow> 'f EventMsg \<Rightarrow> nat \<Rightarrow> string \<Rightarrow> 'f \<Rightarrow> 'f promMetric"
where
  "workerMetric cfg now ev a vName v =
     \<lparr>name = metricName cfg (evName ev) vName,
      labels = a,
      time = (if ExportTimestamps cfg then Some (Timestamp ev) else None),
      pvalue = v,
      addedAt = now\<rparr>"

text \<open>
  The key and the conditional store. \<^verbatim>\<open>e.time.Before(*pm.time)\<close> dereferences the stored
  sample's \<^verbatim>\<open>time\<close>: when that is nil the goroutine panics, which is \<open>None\<close>.
\<close>

definition workerStore ::
  "(labelPair list \<Rightarrow> labelPair list) \<Rightarrow> 'f promMetric \<Rightarrow> 'f PrometheusOutput
     \<Rightarrow> 'f PrometheusOutput option"
where
  "workerStore srt pm p =
     (let (key, arrs) = calculateKey srt (arrays p) pm;
          p1 = p\<lparr>arrays := arrs\<rparr>
      in case (map_of (entries p) key, time pm) of
           (Some e, Some t) \<Rightarrow>
             (case time e of
                None \<Rightarrow> None
              | Some te \<Rightarrow>
                  Some (if te < t then p1\<lparr>entries := AList.update key pm (entries p)\<rparr> else p1))
         | _ \<Rightarrow> Some (p1\<lparr>entries := AList.update key pm (entries p)\<rparr>))"

fun workerValues ::
  "Config \<Rightarrow> 'f float_ops \<Rightarrow> (labelPair list \<Rightarrow> labelPair list) \<Rightarrow> int \<Rightarrow> 'f EventMsg \<Rightarrow> nat
     \<Rightarrow> (string \<times> 'f scalar) list \<Rightarrow> 'f PrometheusOutput \<Rightarrow> 'f PrometheusOutput option"
where
  "workerValues cfg ops srt now ev a [] p = Some p"
| "workerValues cfg ops srt now ev a ((vName, val) # rest) p =
     (case workerValue cfg ops val of
        None \<Rightarrow> workerValues cfg ops srt now ev a rest p
      | Some v \<Rightarrow>
          (case workerStore srt (workerMetric cfg now ev a vName v) p of
             None \<Rightarrow> None
           | Some p1 \<Rightarrow> workerValues cfg ops srt now ev a rest p1))"

text \<open>
  What \<^verbatim>\<open>worker\<close> does with one event between \<^verbatim>\<open>p.Lock()\<close> and \<^verbatim>\<open>p.Unlock()\<close>;
  \<open>now\<close> is the value of \<^verbatim>\<open>time.Now()\<close>. \<^verbatim>\<open>getLabels\<close> allocates a new array.
\<close>

definition worker ::
  "Config \<Rightarrow> 'f float_ops \<Rightarrow> (labelPair list \<Rightarrow> labelPair list) \<Rightarrow> int \<Rightarrow> 'f EventMsg
     \<Rightarrow> 'f PrometheusOutput \<Rightarrow> 'f PrometheusOutput option"
where
  "worker cfg ops srt now ev p =
     (let a = nextArr p;
          p1 = p\<lparr>arrays := (arrays p)(a := getLabels cfg ops ev), nextArr := Suc a\<rparr>
      in workerValues cfg ops srt now ev a (Values ev) p1)"

subsection \<open>Eviction and export\<close>

text \<open>
  The loop of \<^verbatim>\<open>expireMetrics\<close> over the entries; it deletes the entry it is at and no
  other. \<^verbatim>\<open>e.time.Before(expiry)\<close> panics on a sample without \<^verbatim>\<open>time\<close>.
\<close>

fun expireLoop ::
  "Config \<Rightarrow> int \<Rightarrow> (64 word \<times> 'f promMetric) list \<Rightarrow> (64 word \<times> 'f promMetric) list option"
where
  "expireLoop cfg expiry [] = Some []"
| "expireLoop cfg expiry ((k, e) # es) =
     (if ExportTimestamps cfg
      then (case time e of
              None \<Rightarrow> None
            | Some t \<Rightarrow>
                (case expireLoop cfg expiry es of
                   None \<Rightarrow> None
                 | Some kept \<Rightarrow> Some (if t < expiry then kept else (k, e) # kept)))
      else (case expireLoop cfg expiry es of
              None \<Rightarrow> None
            | Some kept \<Rightarrow> Some (if addedAt e < expiry then kept else (k, e) # kept)))"

definition expireMetrics ::
  "Config \<Rightarrow> int \<Rightarrow> 'f PrometheusOutput \<Rightarrow> 'f PrometheusOutput option"
where
  "expireMetrics cfg now p =
     (if Expiration cfg \<le> 0 then Some p
      else case expireLoop cfg (now + (- Expiration cfg)) (entries p) of
             None \<Rightarrow> None
           | Some es \<Rightarrow> Some (p\<lparr>entries := es\<rparr>))"

text \<open>
  One tick of \<^verbatim>\<open>expireMetricsPeriodic\<close>, which returns before its first tick when the
  expiration is not positive.
\<close>

definition expireMetricsPeriodic ::
  "Config \<Rightarrow> int \<Rightarrow> 'f PrometheusOutput \<Rightarrow> 'f PrometheusOutput option"
where
  "expireMetricsPeriodic cfg now p =
     (if Expiration cfg \<le> 0 then Some p else expireMetrics cfg now p)"

text \<open>\<^verbatim>\<open>Collect\<close>: the state afterwards and the samples sent on the channel.\<close>

definition Collect ::
  "Config \<Rightarrow> int \<Rightarrow> 'f PrometheusOutput \<Rightarrow> ('f PrometheusOutput \<times> 'f promMetric list) option"
where
  "Collect cfg now p =
     (case expireMetrics cfg now p of
        None \<Rightarrow> None
      | Some p1 \<Rightarrow> Some (p1, map snd (entries p1)))"

subsection \<open>Configuration\<close>

definition defaultListen :: string where
  "defaultListen = '':9804''"

definition defaultPath :: string where
  "defaultPath = ''/metrics''"

text \<open>\<^verbatim>\<open>time.Minute\<close>, in nanoseconds.\<close>

definition defaultExpiration :: int where
  "defaultExpiration = 60000000000"

text \<open>
  \<^verbatim>\<open>setDefaults\<close>, with \<^verbatim>\<open>net.SplitHostPort\<close> and \<^verbatim>\<open>strconv.Atoi\<close> as parameters
  (\<open>None\<close> when they return an error). \<^verbatim>\<open>setServiceRegistrationDefaults\<close> concerns the
  service registration, which \<open>Config\<close> leaves out.
\<close>

definition setDefaults ::
  "(string \<Rightarrow> (string \<times> string) option) \<Rightarrow> (string \<Rightarrow> int option) \<Rightarrow> Config \<Rightarrow> error + Config"
where
  "setDefaults SplitHostPort Atoi cfg =
     (let cfg1 = (if Listen cfg = [] then cfg\<lparr>Listen := defaultListen\<rparr> else cfg);
          cfg2 = (if Path cfg1 = [] then cfg1\<lparr>Path := defaultPath\<rparr> else cfg1);
          cfg3 = (if Expiration cfg2 = 0 then cfg2\<lparr>Expiration := defaultExpiration\<rparr> else cfg2)
      in case SplitHostPort (Listen cfg3) of
           None \<Rightarrow> Inl InvalidConfiguration
         | Some (host, prt) \<Rightarrow>
             (case Atoi prt of
                None \<Rightarrow> Inl InvalidConfiguration
              | Some n \<Rightarrow> Inr (cfg3\<lparr>address := host, port := n\<rparr>)))"

subsection \<open>Runs\<close>

text \<open>
  The registered output starts with an empty map. What happens to it afterwards, under
  the lock, is one of three things, each at some reading \<open>now\<close> of the clock: the worker
  takes an event, the ticker of \<^verbatim>\<open>expireMetricsPeriodic\<close> fires, or \<^verbatim>\<open>Collect\<close> is called.
\<close>

definition init :: "'f PrometheusOutput" where
  "init = \<lparr>entries = [], arrays = (\<lambda>a. []), nextArr = 0\<rparr>"

datatype 'f action = Event int "'f EventMsg" | Tick int | Scrape int

fun step ::
  "Config \<Rightarrow> 'f float_ops \<Rightarrow> (labelPair list \<Rightarrow> labelPair list) \<Rightarrow> 'f action
     \<Rightarrow> 'f PrometheusOutput \<Rightarrow> 'f PrometheusOutput option"
where
  "step cfg ops srt (Event now ev) p = worker cfg ops srt now ev p"
| "step cfg ops srt (Tick now) p = expireMetricsPeriodic cfg now p"
| "step cfg ops srt (Scrape now) p = map_option fst (Collect cfg now p)"

fun run ::
  "Config \<Rightarrow> 'f float_ops \<Rightarrow> (labelPair list \<Rightarrow> labelPair list) \<Rightarrow> 'f action list
     \<Rightarrow> 'f PrometheusOutput \<Rightarrow> 'f PrometheusOutput option"
where
  "run cfg ops srt [] p = Some p"
| "run cfg ops srt (a # as) p =
     (case step cfg ops srt a p of
        None \<Rightarrow> None
      | Some p1 \<Rightarrow> run cfg ops srt as p1)"

subsection \<open>Invariants of the store\<close>

text \<open>
  Every stored sample has a \<^verbatim>\<open>time\<close> exactly when timestamps are exported; the label
  array of every stored sample is ordered by name; and the label array of every stored
  sample has been allocated.
\<close>

definition timeInv :: "Config \<Rightarrow> 'f PrometheusOutput \<Rightarrow> bool" where
  "timeInv cfg p = list_all (\<lambda>(k, e). (time e \<noteq> None) = ExportTimestamps cfg) (entries p)"

definition labelsSorted :: "'f PrometheusOutput \<Rightarrow> bool" where
  "labelsSorted p = list_all (\<lambda>(k, e). sorted (map Name (arrays p (labels e)))) (entries p)"

definition allocated :: "'f PrometheusOutput \<Rightarrow> bool" where
  "allocated p = list_all (\<lambda>(k, e). labels e < nextArr p) (entries p)"

text \<open>
  The label lists that \<open>getLabels\<close> gives for the events of a run, and the property that
  the label array of every stored sample is a permutation of one of them.
\<close>

fun eventLabels :: "Config \<Rightarrow> 'f float_ops \<Rightarrow> 'f action list \<Rightarrow> labelPair list list" where
  "eventLabels cfg ops [] = []"
| "eventLabels cfg ops (Event now ev # acts) = getLabels cfg ops ev # eventLabels cfg ops acts"
| "eventLabels cfg ops (Tick now # acts) = eventLabels cfg ops acts"
| "eventLabels cfg ops (Scrape now # acts) = eventLabels cfg ops acts"

definition labelsFrom :: "labelPair list list \<Rightarrow> 'f PrometheusOutput \<Rightarrow> bool" where
  "labelsFrom ls p =
     list_all (\<lambda>(k, e). list_ex (\<lambda>l. mset (arrays p (labels e)) = mset l) ls) (entries p)"

subsection \<open>The age of a sample\<close>

text \<open>
  The age anchor of a stored sample, in the words of the specification: the observation
  timestamp when timestamps are exported, the ingestion timestamp otherwise.
\<close>

definition anchor :: "Config \<Rightarrow> 'f promMetric \<Rightarrow> int" where
  "anchor cfg e = (if ExportTimestamps cfg then the (time e) else addedAt e)"

subsection \<open>Concrete instances\<close>

text \<open>
  A configuration with every option off, and floating-point operations over \<open>int\<close> for
  concrete inputs: its \<open>ParseFloat\<close> accepts the unsigned decimal integers and nothing
  else, and the strings of the concrete inputs below are either such numerals or no
  numerals at all.
\<close>

definition plainConfig :: Config where
  "plainConfig =
     \<lparr>Listen = [], Path = [], Expiration = 0, MetricPrefix = [],
      AppendSubscriptionName = False, ExportTimestamps = False, StringsAsLabels = False,
      address = [], port = 0\<rparr>"

definition digitChar :: "char \<Rightarrow> bool" where
  "digitChar c \<longleftrightarrow> CHR ''0'' \<le> c \<and> c \<le> CHR ''9''"

definition decimal :: "string \<Rightarrow> int option" where
  "decimal s =
     (if s \<noteq> [] \<and> list_all digitChar s
      then Some (fold (\<lambda>c n. 10 * n + (of_char c - 48)) s 0) else None)"

definition intOps :: "int float_ops" where
  "intOps = \<lparr>ParseFloat = decimal, ofInt = (\<lambda>i. i), one = 1\<rparr>"

text \<open>
  For concrete inputs, \<^verbatim>\<open>net.SplitHostPort\<close> on the addresses with one colon and no
  bracket, which it splits at the colon; \<^verbatim>\<open>strconv.Atoi\<close> is \<open>decimal\<close> there.
\<close>

definition hostPort :: "string \<Rightarrow> (string \<times> string) option" where
  "hostPort s =
     (if length (filter (\<lambda>c. c = CHR '':'') s) = 1 \<and> CHR ''['' \<notin> set s \<and> CHR '']'' \<notin> set s
      then Some (takeWhile (\<lambda>c. c \<noteq> CHR '':'') s, tl (dropWhile (\<lambda>c. c \<noteq> CHR '':'') s))
      else None)"

section \<open>Properties\<close>

subsection \<open>Name sanitization\<close>

lemma nameChar_underscore: "nameChar (CHR ''_'')"
  by (simp add: nameChar_def)

lemma ReplaceAllString_nameChar: "list_all nameChar (ReplaceAllString s)"
  by (induction s rule: ReplaceAllString.induct) (simp_all add: nameChar_underscore)

lemma list_all_dropWhile: "list_all P xs \<Longrightarrow> list_all P (dropWhile Q xs)"
  by (induction xs) simp_all

lemma TrimLeft_nameChar: "list_all nameChar s \<Longrightarrow> list_all nameChar (TrimLeft s c)"
  by (simp add: TrimLeft_def list_all_dropWhile)

lemma TrimRight_nameChar: "list_all nameChar s \<Longrightarrow> list_all nameChar (TrimRight s c)"
  by (simp add: TrimRight_def list_all_dropWhile)

lemma metricName_nameChar: "list_all nameChar (metricName cfg measName valueName)"
  by (simp add: metricName_def ReplaceAllString_nameChar TrimLeft_nameChar TrimRight_nameChar
      nameChar_underscore)

lemma valueLabels_extends: "\<exists>rest. valueLabels ops added kvs lbls = lbls @ rest"
proof (induction kvs arbitrary: lbls)
  case Nil
  then show ?case by simp
next
  case (Cons kv kvs)
  obtain k v where kv: "kv = (k, v)" by (cases kv)
  let ?l = "\<lparr>Name = ReplaceAllString (filepath_Base k), Value = (case v of Str vs \<Rightarrow> vs | _ \<Rightarrow> [])\<rparr>"
  from Cons [of lbls] Cons [of "lbls @ [?l]"] kv show ?case
    by (auto simp: Let_def split: sum.splits scalar.splits)
qed

text \<open>
  C7: the tag name \<^verbatim>\<open>a/b.c\<close> gives the label name \<^verbatim>\<open>b_c\<close>; with no prefix and without
  the subscription name, \<open>metricName\<close> maps the value name \<^verbatim>\<open>99bottles\<close> to itself and
  \<^verbatim>\<open>.internal\<close> to \<^verbatim>\<open>internal\<close>; and under every configuration every character of a
  metric name is a letter, a digit or an underscore.
\<close>

theorem name_sanitization:
  "(\<exists>rest. getLabels cfg ops (ev\<lparr>Tags := [(''a/b.c'', v)]\<rparr>) = \<lparr>Name = ''b_c'', Value = v\<rparr> # rest) \<and>
   metricName (cfg\<lparr>MetricPrefix := [], AppendSubscriptionName := False\<rparr>) measName ''99bottles''
     = ''99bottles'' \<and>
   metricName (cfg\<lparr>MetricPrefix := [], AppendSubscriptionName := False\<rparr>) measName ''.internal''
     = ''internal'' \<and>
   list_all nameChar (metricName cfg measName valueName)"
proof -
  have "ReplaceAllString (filepath_Base ''a/b.c'') = ''b_c''"
    by (simp add: filepath_Base_def nameChar_def)
  then have "\<exists>rest. getLabels cfg ops (ev\<lparr>Tags := [(''a/b.c'', v)]\<rparr>)
      = \<lparr>Name = ''b_c'', Value = v\<rparr> # rest"
    using valueLabels_extends [of ops "{''b_c''}" "Values ev" "[\<lparr>Name = ''b_c'', Value = v\<rparr>]"]
    by (auto simp: getLabels_def Let_def)
  moreover have "metricName (cfg\<lparr>MetricPrefix := [], AppendSubscriptionName := False\<rparr>)
      measName ''99bottles'' = ''99bottles''"
    by (simp add: metricName_def TrimLeft_def nameChar_def)
  moreover have "metricName (cfg\<lparr>MetricPrefix := [], AppendSubscriptionName := False\<rparr>)
      measName ''.internal'' = ''internal''"
    by (simp add: metricName_def TrimLeft_def nameChar_def)
  ultimately show ?thesis
    using metricName_nameChar by blast
qed

theorem name_sanitization_witness:
  "(\<exists>rest. getLabels (plainConfig\<lparr>MetricPrefix := ''gn mic'', AppendSubscriptionName := True\<rparr>) intOps
       \<lparr>evName = ''sub-1.'', Timestamp = 0, Tags = [(''a/b.c'', ''v'')], Values = []\<rparr>
     = \<lparr>Name = ''b_c'', Value = ''v''\<rparr> # rest) \<and>
   metricName plainConfig ''sub-1.'' ''99bottles'' = ''99bottles'' \<and>
   metricName plainConfig ''sub-1.'' ''.internal'' = ''internal'' \<and>
   list_all nameChar
     (metricName (plainConfig\<lparr>MetricPrefix := ''gn mic'', AppendSubscriptionName := True\<rparr>)
        ''sub-1.'' ''/a/.internal'')"
  using name_sanitization [where
      cfg = "plainConfig\<lparr>MetricPrefix := ''gn mic'', AppendSubscriptionName := True\<rparr>"
      and ops = intOps
      and ev = "\<lparr>evName = ''sub-1.'', Timestamp = 0, Tags = [], Values = []\<rparr>"
      and v = "''v''" and measName = "''sub-1.''" and valueName = "''/a/.internal''"]
  by (simp add: plainConfig_def)

subsection \<open>The identity key\<close>

lemma sorted_distinct_mset_unique:
  assumes "sorted (map f xs)" "sorted (map f ys)" "distinct (map f xs)" "mset xs = mset ys"
  shows "xs = ys"
proof -
  have s: "set xs = set ys" using assms(4) by (rule mset_eq_setD)
  have "mset (map f xs) = mset (map f ys)" using assms(4) by simp
  then have d: "distinct (map f ys)" using assms(3) by (metis mset_eq_imp_distinct_iff)
  have "set (map f xs) = set (map f ys)" using s by simp
  then have m: "map f xs = map f ys"
    using assms(1,2,3) d by (intro sorted_distinct_set_unique)
  have "inj_on f (set xs \<union> set ys)" using assms(3) s by (simp add: distinct_map)
  then show ?thesis using m by (rule map_inj_on [rotated])
qed

lemma sortSlice_perm:
  assumes "sortSlice srt" "mset xs = mset ys" "distinct (map Name xs)"
  shows "srt xs = srt ys"
proof -
  have "mset (srt xs) = mset (srt ys)" using assms(1,2) by (simp add: sortSlice_def)
  moreover have "distinct (map Name (srt xs))"
  proof -
    have "mset (map Name (srt xs)) = mset (map Name xs)"
      using assms(1) by (simp add: sortSlice_def)
    then show ?thesis using assms(3) by (metis mset_eq_imp_distinct_iff)
  qed
  moreover have "sorted (map Name (srt xs))" "sorted (map Name (srt ys))"
    using assms(1) by (simp_all add: sortSlice_def)
  ultimately show ?thesis by (intro sorted_distinct_mset_unique [where f = Name])
qed

lemma sortSlice_sort_key: "sortSlice (sort_key Name)"
  by (simp add: sortSlice_def)

text \<open>
  C1: two samples with the same name whose label arrays are permutations of each other,
  the label names being pairwise distinct, have the same key, whatever sorting function
  \<^verbatim>\<open>sort.Slice\<close> is.
\<close>

theorem calculateKey_order_independent:
  assumes "sortSlice srt"
    and "name p1 = name p2"
    and "mset (arrs1 (labels p1)) = mset (arrs2 (labels p2))"
    and "distinct (map Name (arrs1 (labels p1)))"
  shows "fst (calculateKey srt arrs1 p1) = fst (calculateKey srt arrs2 p2)"
proof -
  have "length (arrs1 (labels p1)) = length (arrs2 (labels p2))"
    using assms(3) by (rule mset_eq_length)
  moreover have "srt (arrs1 (labels p1)) = srt (arrs2 (labels p2))"
    using assms(1,3,4) by (rule sortSlice_perm)
  ultimately show ?thesis
    using assms(2) by (simp add: calculateKey_def Let_def)
qed

theorem calculateKey_order_independent_witness:
  "sortSlice (sort_key Name) \<and>
   mset [\<lparr>Name = ''source'', Value = ''r1''\<rparr>, \<lparr>Name = ''name'', Value = ''eth0''\<rparr>]
     = mset [\<lparr>Name = ''name'', Value = ''eth0''\<rparr>, \<lparr>Name = ''source'', Value = ''r1''\<rparr>] \<and>
   distinct (map Name [\<lparr>Name = ''source'', Value = ''r1''\<rparr>, \<lparr>Name = ''name'', Value = ''eth0''\<rparr>]) \<and>
   fst (calculateKey (sort_key Name)
          (\<lambda>a. [\<lparr>Name = ''source'', Value = ''r1''\<rparr>, \<lparr>Name = ''name'', Value = ''eth0''\<rparr>])
          \<lparr>name = ''in_octets'', labels = 0, time = None, pvalue = (1::int), addedAt = 5\<rparr>)
     = fst (calculateKey (sort_key Name)
          (\<lambda>a. [\<lparr>Name = ''name'', Value = ''eth0''\<rparr>, \<lparr>Name = ''source'', Value = ''r1''\<rparr>])
          \<lparr>name = ''in_octets'', labels = 0, time = Some 7, pvalue = (2::int), addedAt = 9\<rparr>)"
proof -
  have c: "sortSlice (sort_key Name)" by (rule sortSlice_sort_key)
  have m: "mset [\<lparr>Name = ''source'', Value = ''r1''\<rparr>, \<lparr>Name = ''name'', Value = ''eth0''\<rparr>]
     = mset [\<lparr>Name = ''name'', Value = ''eth0''\<rparr>, \<lparr>Name = ''source'', Value = ''r1''\<rparr>]"
    by simp
  have d: "distinct (map Name
      [\<lparr>Name = ''source'', Value = ''r1''\<rparr>, \<lparr>Name = ''name'', Value = ''eth0''\<rparr>])"
    by simp
  show ?thesis
    using c m d
      calculateKey_order_independent [where srt = "sort_key Name"
        and ?p1.0 = "\<lparr>name = ''in_octets'', labels = 0, time = None, pvalue = (1::int), addedAt = 5\<rparr>"
        and ?p2.0 = "\<lparr>name = ''in_octets'', labels = 0, time = Some 7, pvalue = (2::int), addedAt = 9\<rparr>"
        and ?arrs1.0 = "\<lambda>a. [\<lparr>Name = ''source'', Value = ''r1''\<rparr>, \<lparr>Name = ''name'', Value = ''eth0''\<rparr>]"
        and ?arrs2.0 = "\<lambda>a. [\<lparr>Name = ''name'', Value = ''eth0''\<rparr>, \<lparr>Name = ''source'', Value = ''r1''\<rparr>]"]
    by simp
qed

subsection \<open>Label projection\<close>

text \<open>The loop over the tags keeps one label for each name.\<close>

lemma tagLabels_names:
  "distinct (map Name lbls) \<Longrightarrow>
   distinct (map Name (fst (tagLabels kvs (lbls, Name ` set lbls)))) \<and>
   snd (tagLabels kvs (lbls, Name ` set lbls)) = Name ` set (fst (tagLabels kvs (lbls, Name ` set lbls)))"
proof (induction kvs arbitrary: lbls)
  case Nil
  then show ?case by simp
next
  case (Cons kv kvs)
  obtain k v where kv: "kv = (k, v)" by (cases kv)
  let ?n = "ReplaceAllString (filepath_Base k)"
  show ?case
  proof (cases "?n \<in> Name ` set lbls")
    case True
    then show ?thesis using Cons.IH [OF Cons.prems] kv by (simp add: Let_def)
  next
    case False
    let ?l = "\<lparr>Name = ?n, Value = v\<rparr>"
    have i: "insert ?n (Name ` set lbls) = Name ` set (lbls @ [?l])"
      by simp
    have d: "distinct (map Name (lbls @ [?l]))"
      using Cons.prems False by auto
    have "tagLabels (kv # kvs) (lbls, Name ` set lbls)
        = tagLabels kvs (lbls @ [?l], Name ` set (lbls @ [?l]))"
      using False kv by (simp add: Let_def)
    then show ?thesis
      using Cons.IH [OF d] by simp
  qed
qed

lemma getLabels_tags_distinct:
  assumes "\<not> StringsAsLabels cfg"
  shows "distinct (map Name (getLabels cfg ops ev))"
proof -
  have "getLabels cfg ops ev = fst (tagLabels (Tags ev) ([], {}))"
    using assms by (simp add: getLabels_def split: prod.splits)
  then show ?thesis
    using tagLabels_names [of "[]" "Tags ev"] by simp
qed

text \<open>
  C3: the label list of an event holds no two labels of the same name. The loop over the
  values looks names up in \<^verbatim>\<open>addedLabels\<close> and never enters one: for an event whose values
  \<^verbatim>\<open>a/x\<close> and \<^verbatim>\<open>b/x\<close> are the strings \<^verbatim>\<open>foo\<close> and \<^verbatim>\<open>bar\<close>, with strings as labels,
  the list holds the name \<^verbatim>\<open>x\<close> twice.
\<close>

theorem getLabels_repeats_value_label:
  "getLabels (plainConfig\<lparr>StringsAsLabels := True\<rparr>) intOps
     \<lparr>evName = ''e'', Timestamp = 0, Tags = [],
      Values = [(''a/x'', Str ''foo''), (''b/x'', Str ''bar'')]\<rparr>
   = [\<lparr>Name = ''x'', Value = ''foo''\<rparr>, \<lparr>Name = ''x'', Value = ''bar''\<rparr>]"
  by (simp add: getLabels_def plainConfig_def intOps_def decimal_def digitChar_def
      filepath_Base_def nameChar_def Let_def)

subsection \<open>Eviction\<close>

lemma setDefaults_Expiration:
  "setDefaults shp atoi cfg = Inr cfg1 \<Longrightarrow>
   Expiration cfg1 = (if Expiration cfg = 0 then defaultExpiration else Expiration cfg)"
  by (auto simp: setDefaults_def Let_def split: option.splits prod.splits if_splits)

text \<open>
  C4, amended: once \<open>setDefaults\<close> has accepted a configuration whose expiration is
  negative, no sweep removes an entry, whatever the clock reads: \<open>expireMetrics\<close>, a tick of
  the periodic sweep and the sweep of \<open>Collect\<close> all leave the output as it is. An
  expiration of zero is not kept: \<open>setDefaults\<close> makes it the default of one minute.
\<close>

theorem negative_expiration_disables:
  assumes "setDefaults shp atoi cfg = Inr cfg1"
  shows "(Expiration cfg < 0 \<longrightarrow>
            expireMetrics cfg1 now p = Some p \<and> expireMetricsPeriodic cfg1 now p = Some p \<and>
            Collect cfg1 now p = Some (p, map snd (entries p))) \<and>
         (Expiration cfg = 0 \<longrightarrow> Expiration cfg1 = defaultExpiration)"
  using setDefaults_Expiration [OF assms]
  by (simp add: expireMetrics_def expireMetricsPeriodic_def Collect_def)

theorem negative_expiration_disables_witness:
  "\<exists>cfg1. setDefaults hostPort decimal (plainConfig\<lparr>Expiration := - 1\<rparr>) = Inr cfg1 \<and>
     Expiration (plainConfig\<lparr>Expiration := - 1\<rparr>) < 0 \<and>
     expireMetrics cfg1 61000000000
       \<lparr>entries = [(1, \<lparr>name = ''up'', labels = 0, time = None, pvalue = (1::int), addedAt = 0\<rparr>)],
        arrays = (\<lambda>a. []), nextArr = 1\<rparr>
     = Some \<lparr>entries = [(1, \<lparr>name = ''up'', labels = 0, time = None, pvalue = 1, addedAt = 0\<rparr>)],
        arrays = (\<lambda>a. []), nextArr = 1\<rparr>"
proof -
  have s: "setDefaults hostPort decimal (plainConfig\<lparr>Expiration := - 1\<rparr>)
      = Inr (plainConfig\<lparr>Listen := '':9804'', Path := ''/metrics'', Expiration := - 1,
               address := [], port := 9804\<rparr>)"
    by (simp add: setDefaults_def plainConfig_def hostPort_def decimal_def digitChar_def
        defaultListen_def defaultPath_def Let_def)
  have n: "Expiration (plainConfig\<lparr>Expiration := - 1\<rparr>) < 0"
    by simp
  show ?thesis
    using s n negative_expiration_disables [OF s, of 61000000000
        "\<lparr>entries = [(1, \<lparr>name = ''up'', labels = 0, time = None, pvalue = (1::int), addedAt = 0\<rparr>)],
          arrays = (\<lambda>a. []), nextArr = 1\<rparr>"]
    by simp
qed

text \<open>
  The claim as stated fails at zero: the configuration with expiration \<open>0\<close> comes out of
  \<open>setDefaults\<close> with one minute, and a sweep 61 seconds after a sample was added
  removes it.
\<close>

theorem zero_expiration_counterexample:
  "\<exists>cfg1. Expiration plainConfig \<le> 0 \<and>
     setDefaults hostPort decimal plainConfig = Inr cfg1 \<and>
     expireMetrics cfg1 61000000000
       \<lparr>entries = [(1, \<lparr>name = ''up'', labels = 0, time = None, pvalue = (1::int), addedAt = 0\<rparr>)],
        arrays = (\<lambda>a. []), nextArr = 1\<rparr>
     = Some \<lparr>entries = [], arrays = (\<lambda>a. []), nextArr = 1\<rparr>"
  by (simp add: setDefaults_def plainConfig_def hostPort_def decimal_def digitChar_def
      defaultListen_def defaultPath_def defaultExpiration_def expireMetrics_def Let_def)


lemma expireLoop_filter:
  assumes "ExportTimestamps cfg \<longrightarrow> list_all (\<lambda>(k, e). time e \<noteq> None) es"
  shows "expireLoop cfg expiry es = Some (filter (\<lambda>(k, e). \<not> anchor cfg e < expiry) es)"
  using assms by (induction es) (auto simp: anchor_def)

lemma workerMetric_addedAt: "addedAt (workerMetric cfg now ev a vName v) = now"
  by (simp add: workerMetric_def)

text \<open>
  C6: with a positive expiration \<open>T\<close>, and every sample carrying its timestamp when
  timestamps are exported, a sweep at \<open>now\<close> keeps exactly the entries whose anchor is not
  before \<open>now - T\<close>. Without exported timestamps, an entry added at \<open>t0\<close> is still there
  after a sweep at \<open>t0 + T - d\<close> and gone after one at \<open>t0 + T + d\<close>, for every \<open>d > 0\<close>.
\<close>

theorem sweep_postcondition:
  assumes "0 < Expiration cfg"
    and "ExportTimestamps cfg \<longrightarrow> list_all (\<lambda>(k, e). time e \<noteq> None) (entries p)"
  shows "expireMetrics cfg now p
           = Some (p\<lparr>entries := filter (\<lambda>(k, e). \<not> anchor cfg e < now - Expiration cfg) (entries p)\<rparr>) \<and>
         (\<forall>k e d. \<not> ExportTimestamps cfg \<and> (k, e) \<in> set (entries p) \<and> 0 < d \<longrightarrow>
            (\<exists>q. expireMetrics cfg (addedAt e + Expiration cfg - d) p = Some q \<and>
                 (k, e) \<in> set (entries q)) \<and>
            (\<exists>q. expireMetrics cfg (addedAt e + Expiration cfg + d) p = Some q \<and>
                 (k, e) \<notin> set (entries q)))"
proof -
  have sweep: "expireMetrics cfg t p
      = Some (p\<lparr>entries := filter (\<lambda>(k, e). \<not> anchor cfg e < t - Expiration cfg) (entries p)\<rparr>)"
    for t
    using assms expireLoop_filter [OF assms(2), of "t + (- Expiration cfg)"]
    by (simp add: expireMetrics_def)
  show ?thesis
  proof (intro conjI allI impI)
    show "expireMetrics cfg now p
           = Some (p\<lparr>entries := filter (\<lambda>(k, e). \<not> anchor cfg e < now - Expiration cfg) (entries p)\<rparr>)"
      by (rule sweep)
  next
    fix k e and d :: int
    assume a: "\<not> ExportTimestamps cfg \<and> (k, e) \<in> set (entries p) \<and> 0 < d"
    then show "\<exists>q. expireMetrics cfg (addedAt e + Expiration cfg - d) p = Some q \<and>
                 (k, e) \<in> set (entries q)"
      by (simp add: sweep anchor_def)
  next
    fix k e and d :: int
    assume a: "\<not> ExportTimestamps cfg \<and> (k, e) \<in> set (entries p) \<and> 0 < d"
    then show "\<exists>q. expireMetrics cfg (addedAt e + Expiration cfg + d) p = Some q \<and>
                 (k, e) \<notin> set (entries q)"
      by (simp add: sweep anchor_def)
  qed
qed

theorem sweep_postcondition_witness:
  "0 < Expiration (plainConfig\<lparr>Expiration := 60\<rparr>) \<and>
   expireMetrics (plainConfig\<lparr>Expiration := 60\<rparr>) 100
     \<lparr>entries = [(1, \<lparr>name = ''old'', labels = 0, time = None, pvalue = (1::int), addedAt = 39\<rparr>),
                 (2, \<lparr>name = ''new'', labels = 0, time = None, pvalue = 1, addedAt = 40\<rparr>)],
      arrays = (\<lambda>a. []), nextArr = 1\<rparr>
   = Some \<lparr>entries = [(2, \<lparr>name = ''new'', labels = 0, time = None, pvalue = 1, addedAt = 40\<rparr>)],
      arrays = (\<lambda>a. []), nextArr = 1\<rparr>"
proof -
  have e: "0 < Expiration (plainConfig\<lparr>Expiration := 60\<rparr>)" by simp
  have t: "ExportTimestamps (plainConfig\<lparr>Expiration := 60\<rparr>) \<longrightarrow>
      list_all (\<lambda>(k, e). time e \<noteq> None)
        (entries \<lparr>entries = [(1, \<lparr>name = ''old'', labels = 0, time = None, pvalue = (1::int), addedAt = 39\<rparr>),
                 (2, \<lparr>name = ''new'', labels = 0, time = None, pvalue = 1, addedAt = 40\<rparr>)],
          arrays = (\<lambda>a. []), nextArr = 1\<rparr>)"
    by (simp add: plainConfig_def)
  show ?thesis
    using e sweep_postcondition [OF e t, of 100]
    by (simp add: anchor_def plainConfig_def)
qed


subsection \<open>Upsert\<close>


lemma calculateKey_mset:
  "sortSlice srt \<Longrightarrow> mset (snd (calculateKey srt arrs pm) a) = mset (arrs a)"
  by (simp add: calculateKey_def Let_def sortSlice_def)

lemma workerStore_absent:
  assumes "map_of (entries p) (fst (calculateKey srt (arrays p) pm)) = None"
  shows "workerStore srt pm p
     = Some (p\<lparr>arrays := snd (calculateKey srt (arrays p) pm),
               entries := AList.update (fst (calculateKey srt (arrays p) pm)) pm (entries p)\<rparr>)"
  using assms by (simp add: workerStore_def Let_def case_prod_beta split: option.splits)

lemma workerStore_untimed:
  assumes "time pm = None"
  shows "workerStore srt pm p
     = Some (p\<lparr>arrays := snd (calculateKey srt (arrays p) pm),
               entries := AList.update (fst (calculateKey srt (arrays p) pm)) pm (entries p)\<rparr>)"
  using assms by (simp add: workerStore_def Let_def case_prod_beta split: option.splits)

lemma workerStore_timed:
  assumes "map_of (entries p) (fst (calculateKey srt (arrays p) pm)) = Some e"
    and "time e = Some te" and "time pm = Some t"
  shows "workerStore srt pm p
     = Some (p\<lparr>arrays := snd (calculateKey srt (arrays p) pm),
               entries := (if te < t
                           then AList.update (fst (calculateKey srt (arrays p) pm)) pm (entries p)
                           else entries p)\<rparr>)"
  using assms by (simp add: workerStore_def Let_def case_prod_beta split: option.splits)








subsection \<open>The ingestion loop\<close>

lemma workerMetric_Values [simp]:
  "workerMetric cfg now (ev\<lparr>Values := vs\<rparr>) a vName v = workerMetric cfg now ev a vName v"
  by (simp add: workerMetric_def)

lemma workerValues_Values [simp]:
  "workerValues cfg ops srt now (ev\<lparr>Values := vs\<rparr>) a xs p = workerValues cfg ops srt now ev a xs p"
  by (induction xs arbitrary: p) (auto split: option.splits)

lemma workerValues_append:
  "workerValues cfg ops srt now ev a (xs @ ys) p =
     (case workerValues cfg ops srt now ev a xs p of
        None \<Rightarrow> None
      | Some p1 \<Rightarrow> workerValues cfg ops srt now ev a ys p1)"
  by (induction xs arbitrary: p) (auto split: option.splits)

lemma getLabels_Values:
  "\<not> StringsAsLabels cfg \<Longrightarrow> getLabels cfg ops (ev\<lparr>Values := vs\<rparr>) = getLabels cfg ops ev"
  by (simp add: getLabels_def)

lemma worker_split:
  assumes "workerValue cfg ops val = Some v"
  shows "worker cfg ops srt now (ev\<lparr>Values := xs @ (vName, val) # ys\<rparr>) p =
     (case workerValues cfg ops srt now ev (nextArr p) xs
             (p\<lparr>arrays := (arrays p)(nextArr p :=
                    getLabels cfg ops (ev\<lparr>Values := xs @ (vName, val) # ys\<rparr>)),
                nextArr := Suc (nextArr p)\<rparr>) of
        None \<Rightarrow> None
      | Some p1 \<Rightarrow>
          (case workerStore srt (workerMetric cfg now ev (nextArr p) vName v) p1 of
             None \<Rightarrow> None
           | Some p2 \<Rightarrow> workerValues cfg ops srt now ev (nextArr p) ys p2))"
  using assms by (simp add: worker_def Let_def workerValues_append split: option.splits)

text \<open>
  C5, amended: \<open>getFloat\<close> answers a value of no supported type with \<open>UnsupportedType\<close>.
  With strings as labels off, the worker drops such a value: the event has the effect
  it has without the value. With strings as labels on, the worker does not drop it: having
  gone through the values met before it, the loop passes the sample of value \<^verbatim>\<open>1.0\<close>
  built for it to the conditional store and goes on with the remaining values from there;
  and when timestamps are not exported, or no entry is under the sample's key, the store
  holds that sample under its key right after.
\<close>

theorem unsupported_value_dropped:
  fixes cfg :: Config and ops :: "'f float_ops" and ev :: "'f EventMsg" and p :: "'f PrometheusOutput"
    and xs ys :: "(string \<times> 'f scalar) list" and vName :: string and now :: int
    and srt :: "labelPair list \<Rightarrow> labelPair list"
  defines "ev1 \<equiv> ev\<lparr>Values := xs @ (vName, Other) # ys\<rparr>"
    and "a \<equiv> nextArr p"
    and "pm \<equiv> \<lparr>name = metricName cfg (evName ev) vName, labels = nextArr p,
              time = (if ExportTimestamps cfg then Some (Timestamp ev) else None),
              pvalue = one ops, addedAt = now\<rparr>"
  defines "p0 \<equiv> p\<lparr>arrays := (arrays p)(a := getLabels cfg ops ev1), nextArr := Suc a\<rparr>"
  shows
  "getFloat ops Other = Inl UnsupportedType \<and>
   (\<not> StringsAsLabels cfg \<longrightarrow>
      worker cfg ops srt now ev1 p = worker cfg ops srt now (ev\<lparr>Values := xs @ ys\<rparr>) p) \<and>
   (StringsAsLabels cfg \<longrightarrow>
      worker cfg ops srt now ev1 p =
        (case workerValues cfg ops srt now ev1 a xs p0 of
           None \<Rightarrow> None
         | Some p1 \<Rightarrow>
             (case workerStore srt pm p1 of
                None \<Rightarrow> None
              | Some p2 \<Rightarrow> workerValues cfg ops srt now ev1 a ys p2))) \<and>
   (\<forall>p1. StringsAsLabels cfg \<and> workerValues cfg ops srt now ev1 a xs p0 = Some p1 \<and>
         (\<not> ExportTimestamps cfg \<or> map_of (entries p1) (fst (calculateKey srt (arrays p1) pm)) = None) \<longrightarrow>
      (\<exists>p2. workerStore srt pm p1 = Some p2 \<and>
            map_of (entries p2) (fst (calculateKey srt (arrays p1) pm)) = Some pm \<and>
            worker cfg ops srt now ev1 p = workerValues cfg ops srt now ev1 a ys p2))"
proof (intro conjI impI allI)
  show "getFloat ops Other = Inl UnsupportedType" by simp
next
  assume off: "\<not> StringsAsLabels cfg"
  then have "workerValue cfg ops Other = None"
    by (simp add: workerValue_def)
  then have "workerValues cfg ops srt now ev b (xs @ (vName, Other) # ys) q
        = workerValues cfg ops srt now ev b (xs @ ys) q" for b q
    by (simp add: workerValues_append split: option.splits)
  then show "worker cfg ops srt now ev1 p = worker cfg ops srt now (ev\<lparr>Values := xs @ ys\<rparr>) p"
    using off by (simp add: ev1_def worker_def Let_def getLabels_Values)
next
  assume on: "StringsAsLabels cfg"
  then have v: "workerValue cfg ops Other = Some (one ops)"
    by (simp add: workerValue_def)
  have m: "workerMetric cfg now ev (nextArr p) vName (one ops) = pm"
    by (simp add: workerMetric_def pm_def)
  show "worker cfg ops srt now ev1 p =
        (case workerValues cfg ops srt now ev1 a xs p0 of
           None \<Rightarrow> None
         | Some p1 \<Rightarrow>
             (case workerStore srt pm p1 of
                None \<Rightarrow> None
              | Some p2 \<Rightarrow> workerValues cfg ops srt now ev1 a ys p2))"
    using worker_split [OF v, where srt = srt and now = now and ev = ev and xs = xs and vName = vName and ys = ys and p = p]
    by (simp add: ev1_def a_def p0_def m cong: option.case_cong)
next
  fix p1
  assume h: "StringsAsLabels cfg \<and> workerValues cfg ops srt now ev1 a xs p0 = Some p1 \<and>
         (\<not> ExportTimestamps cfg \<or> map_of (entries p1) (fst (calculateKey srt (arrays p1) pm)) = None)"
  then have v: "workerValue cfg ops Other = Some (one ops)"
    by (simp add: workerValue_def)
  have m: "workerMetric cfg now ev (nextArr p) vName (one ops) = pm"
    by (simp add: workerMetric_def pm_def)
  let ?key = "fst (calculateKey srt (arrays p1) pm)"
  let ?p2 = "p1\<lparr>arrays := snd (calculateKey srt (arrays p1) pm),
                 entries := AList.update ?key pm (entries p1)\<rparr>"
  have s: "workerStore srt pm p1 = Some ?p2"
  proof (cases "ExportTimestamps cfg")
    case True
    with h show ?thesis by (simp add: workerStore_absent)
  next
    case False
    then have "time pm = None" by (simp add: pm_def)
    then show ?thesis by (rule workerStore_untimed)
  qed
  have "worker cfg ops srt now ev1 p = workerValues cfg ops srt now ev1 a ys ?p2"
    using worker_split [OF v, where srt = srt and now = now and ev = ev and xs = xs and vName = vName and ys = ys and p = p] h s
    by (simp add: ev1_def a_def p0_def m cong: option.case_cong)
  moreover have "map_of (entries ?p2) ?key = Some pm"
    by (simp add: update_conv')
  ultimately show "\<exists>p2. workerStore srt pm p1 = Some p2 \<and>
            map_of (entries p2) (fst (calculateKey srt (arrays p1) pm)) = Some pm \<and>
            worker cfg ops srt now ev1 p = workerValues cfg ops srt now ev1 a ys p2"
    using s by blast
qed



theorem unsupported_value_dropped_witness:
  "\<not> StringsAsLabels plainConfig \<and>
   worker plainConfig intOps (sort_key Name) 5
     \<lparr>evName = ''sub'', Timestamp = 0, Tags = [],
      Values = [(''flag'', Other), (''in-octets'', Int64 1234)]\<rparr> init
   = worker plainConfig intOps (sort_key Name) 5
       \<lparr>evName = ''sub'', Timestamp = 0, Tags = [], Values = [(''in-octets'', Int64 1234)]\<rparr> init \<and>
   StringsAsLabels (plainConfig\<lparr>StringsAsLabels := True\<rparr>) \<and>
   (\<exists>p2. worker (plainConfig\<lparr>StringsAsLabels := True\<rparr>) intOps (sort_key Name) 5
            \<lparr>evName = ''sub'', Timestamp = 0, Tags = [], Values = [(''flag'', Other)]\<rparr> init
          = Some p2 \<and>
         map_of (entries p2) 15416613692695644951
          = Some \<lparr>name = ''flag'', labels = 0, time = None, pvalue = 1, addedAt = 5\<rparr>)"
proof -
  let ?ev = "\<lparr>evName = ''sub'', Timestamp = 0, Tags = [], Values = []\<rparr> :: int EventMsg"
  let ?on = "plainConfig\<lparr>StringsAsLabels := True\<rparr>"
  let ?i = "init :: int PrometheusOutput"
  let ?start = "?i\<lparr>arrays := (arrays ?i)(nextArr ?i :=
                 getLabels ?on intOps (?ev\<lparr>Values := [] @ (''flag'', Other) # []\<rparr>)),
               nextArr := Suc (nextArr ?i)\<rparr>"
  have off: "\<not> StringsAsLabels plainConfig"
    by (simp add: plainConfig_def)
  have dropped: "worker plainConfig intOps (sort_key Name) 5
      (?ev\<lparr>Values := [] @ (''flag'', Other) # [(''in-octets'', Int64 1234)]\<rparr>) init
    = worker plainConfig intOps (sort_key Name) 5
      (?ev\<lparr>Values := [] @ [(''in-octets'', Int64 1234)]\<rparr>) init"
    using off
      unsupported_value_dropped [where cfg = plainConfig and ops = intOps and srt = "sort_key Name"
        and now = 5 and ev = ?ev and xs = "[]" and vName = "''flag''"
        and ys = "[(''in-octets'', Int64 1234)]" and p = init]
    by blast
  have h: "StringsAsLabels ?on \<and>
      workerValues ?on intOps (sort_key Name) 5 (?ev\<lparr>Values := [] @ (''flag'', Other) # []\<rparr>)
        (nextArr ?i) [] ?start = Some ?start \<and>
      (\<not> ExportTimestamps ?on \<or>
       map_of (entries ?start)
         (fst (calculateKey (sort_key Name) (arrays ?start)
            \<lparr>name = metricName ?on (evName ?ev) ''flag'', labels = nextArr ?i,
             time = (if ExportTimestamps ?on then Some (Timestamp ?ev) else None),
             pvalue = one intOps, addedAt = 5\<rparr>)) = None)"
    by (simp add: plainConfig_def)
  have k: "fst (calculateKey (sort_key Name) (arrays ?start)
            \<lparr>name = metricName ?on (evName ?ev) ''flag'', labels = nextArr ?i,
             time = (if ExportTimestamps ?on then Some (Timestamp ?ev) else None),
             pvalue = one intOps, addedAt = 5\<rparr>) = 15416613692695644951"
    by (simp add: calculateKey_def fnvWrite_def New64a_def Let_def getLabels_def init_def
        plainConfig_def metricName_def TrimLeft_def nameChar_def)
  have stored: "\<exists>p2. worker ?on intOps (sort_key Name) 5
            (?ev\<lparr>Values := [] @ (''flag'', Other) # []\<rparr>) init = Some p2 \<and>
         map_of (entries p2) 15416613692695644951
          = Some \<lparr>name = ''flag'', labels = 0, time = None, pvalue = 1, addedAt = 5\<rparr>"
    using unsupported_value_dropped [where cfg = ?on and ops = intOps and srt = "sort_key Name"
        and now = 5 and ev = ?ev and xs = "[]" and vName = "''flag''" and ys = "[]" and p = init,
        THEN conjunct2, THEN conjunct2, THEN conjunct2, rule_format, OF h]
    by (simp only: k)
      (auto simp add: init_def plainConfig_def intOps_def metricName_def TrimLeft_def nameChar_def)
  show ?thesis
    using off dropped stored by simp
qed

text \<open>
  The claim as stated fails with strings as labels on: the event whose only value
  \<^verbatim>\<open>flag\<close> is of no supported type leaves a sample named \<^verbatim>\<open>flag\<close> in the empty store.
\<close>

theorem unsupported_value_stored_counterexample:
  "getFloat intOps Other = Inl UnsupportedType \<and>
   map_option (\<lambda>p. map snd (entries p))
     (worker (plainConfig\<lparr>StringsAsLabels := True\<rparr>) intOps (sort_key Name) 5
        \<lparr>evName = ''sub'', Timestamp = 0, Tags = [], Values = [(''flag'', Other)]\<rparr> init)
   = Some [\<lparr>name = ''flag'', labels = 0, time = None, pvalue = 1, addedAt = 5\<rparr>]"
  by (simp add: worker_def workerValue_def workerStore_def workerMetric_def calculateKey_def
      getLabels_def init_def plainConfig_def intOps_def Let_def metricName_def TrimLeft_def
      nameChar_def split: prod.splits)

subsection \<open>Timestamps in the store\<close>

lemma set_update_subset: "set (AList.update k v al) \<subseteq> insert (k, v) (set al)"
  by (induction al) auto

lemma list_all_update:
  "list_all P al \<Longrightarrow> P (k, v) \<Longrightarrow> list_all P (AList.update k v al)"
  using set_update_subset [of k v al] by (auto simp: list_all_iff)

lemma workerStore_entries:
  assumes "workerStore srt pm p = Some q"
  shows "(entries q = entries p \<or>
          entries q = AList.update (fst (calculateKey srt (arrays p) pm)) pm (entries p)) \<and>
         arrays q = snd (calculateKey srt (arrays p) pm) \<and> nextArr q = nextArr p"
  using assms
  by (auto simp: workerStore_def Let_def case_prod_beta split: option.splits if_splits)

lemma workerStore_timeInv:
  assumes "timeInv cfg p" and "(time pm \<noteq> None) = ExportTimestamps cfg"
  shows "\<exists>q. workerStore srt pm p = Some q \<and> timeInv cfg q"
proof -
  let ?key = "fst (calculateKey srt (arrays p) pm)"
  have ok: "workerStore srt pm p \<noteq> None"
  proof (cases "map_of (entries p) ?key")
    case None
    then show ?thesis by (simp add: workerStore_absent)
  next
    case (Some e)
    show ?thesis
    proof (cases "time pm")
      case None
      then show ?thesis by (simp add: workerStore_untimed)
    next
      case (Some t)
      from \<open>map_of (entries p) ?key = Some e\<close> have "(?key, e) \<in> set (entries p)"
        by (rule map_of_SomeD)
      with assms Some obtain te where "time e = Some te"
        by (auto simp: timeInv_def list_all_iff)
      with \<open>map_of (entries p) ?key = Some e\<close> Some show ?thesis
        by (simp add: workerStore_timed)
    qed
  qed
  then obtain q where q: "workerStore srt pm p = Some q" by blast
  let ?P = "\<lambda>(k, e). (time e \<noteq> None) = ExportTimestamps cfg"
  have a: "list_all ?P (entries p)"
    using assms(1) by (simp add: timeInv_def)
  have b: "?P (?key, pm)"
    using assms(2) by simp
  from workerStore_entries [OF q]
  have "entries q = entries p \<or> entries q = AList.update ?key pm (entries p)"
    by blast
  then have "list_all ?P (entries q)"
  proof
    assume "entries q = entries p"
    then show ?thesis using a by (simp only:)
  next
    assume "entries q = AList.update ?key pm (entries p)"
    then show ?thesis using list_all_update [OF a b] by (simp only:)
  qed
  then have "timeInv cfg q"
    by (simp add: timeInv_def)
  with q show ?thesis by blast
qed

lemma workerValues_timeInv:
  "timeInv cfg p \<Longrightarrow> \<exists>q. workerValues cfg ops srt now ev a vs p = Some q \<and> timeInv cfg q"
proof (induction vs arbitrary: p)
  case Nil
  then show ?case by simp
next
  case (Cons x vs)
  obtain vName val where x: "x = (vName, val)" by (cases x)
  show ?case
  proof (cases "workerValue cfg ops val")
    case None
    then show ?thesis using Cons x by simp
  next
    case (Some v)
    have "(time (workerMetric cfg now ev a vName v) \<noteq> None) = ExportTimestamps cfg"
      by (simp add: workerMetric_def)
    from workerStore_timeInv [OF Cons.prems this]
    obtain p1 where "workerStore srt (workerMetric cfg now ev a vName v) p = Some p1"
      and "timeInv cfg p1" by blast
    then show ?thesis using Cons.IH [of p1] Some x by simp
  qed
qed

lemma worker_timeInv:
  assumes "timeInv cfg p"
  shows "\<exists>q. worker cfg ops srt now ev p = Some q \<and> timeInv cfg q"
proof -
  have "timeInv cfg (p\<lparr>arrays := (arrays p)(nextArr p := getLabels cfg ops ev),
                        nextArr := Suc (nextArr p)\<rparr>)"
    using assms by (simp add: timeInv_def)
  then show ?thesis
    unfolding worker_def Let_def by (rule workerValues_timeInv)
qed

lemma expireMetrics_timeInv:
  assumes "timeInv cfg p"
  shows "\<exists>q. expireMetrics cfg now p = Some q \<and> timeInv cfg q \<and>
            set (entries q) \<subseteq> set (entries p) \<and> arrays q = arrays p \<and> nextArr q = nextArr p"
proof -
  have "ExportTimestamps cfg \<longrightarrow> list_all (\<lambda>(k, e). time e \<noteq> None) (entries p)"
    using assms by (auto simp: timeInv_def list_all_iff)
  from expireLoop_filter [OF this] show ?thesis
    using assms by (auto simp: expireMetrics_def timeInv_def list_all_iff)
qed

lemma step_timeInv:
  assumes "timeInv cfg p"
  shows "\<exists>q. step cfg ops srt a p = Some q \<and> timeInv cfg q"
proof (cases a)
  case (Event now ev)
  then show ?thesis using worker_timeInv [OF assms] by simp
next
  case (Tick now)
  then show ?thesis
    using expireMetrics_timeInv [OF assms, of now] assms
    by (auto simp: expireMetricsPeriodic_def)
next
  case (Scrape now)
  then show ?thesis
    using expireMetrics_timeInv [OF assms, of now]
    by (auto simp: Collect_def)
qed

lemma run_timeInv:
  "timeInv cfg p \<Longrightarrow> \<exists>q. run cfg ops srt acts p = Some q \<and> timeInv cfg q"
proof (induction acts arbitrary: p)
  case Nil
  then show ?case by simp
next
  case (Cons a acts)
  from step_timeInv [OF Cons.prems]
  obtain p1 where "step cfg ops srt a p = Some p1" and "timeInv cfg p1" by blast
  then show ?case using Cons.IH [of p1] by simp
qed

lemma init_timeInv: "timeInv cfg init"
  by (simp add: timeInv_def init_def)

text \<open>
  C9: under one configuration, the empty store has the property that every sample in it
  has a \<^verbatim>\<open>time\<close> exactly when timestamps are exported; from a store with the property
  every step (an event, a tick of the periodic sweep, a scrape) ends without a nil
  dereference in a store with the property; hence so does every run from the empty store.
\<close>

theorem timestamp_invariant:
  fixes ops :: "'f float_ops"
  shows "timeInv cfg (init :: 'f PrometheusOutput) \<and>
   (\<forall>a (p :: 'f PrometheusOutput).
      timeInv cfg p \<longrightarrow> (\<exists>q. step cfg ops srt a p = Some q \<and> timeInv cfg q)) \<and>
   (\<exists>p. run cfg ops srt acts init = Some p \<and> timeInv cfg p)"
  using init_timeInv step_timeInv run_timeInv [OF init_timeInv] by blast


theorem timestamp_invariant_witness:
  "timeInv (plainConfig\<lparr>ExportTimestamps := True\<rparr>) (init :: int PrometheusOutput) \<and>
   (\<exists>q. step (plainConfig\<lparr>ExportTimestamps := True\<rparr>) intOps (sort_key Name)
          (Event 5 \<lparr>evName = ''sub'', Timestamp = 3, Tags = [(''/interfaces/interface/name'', ''eth0'')],
                    Values = [(''in-octets'', Int64 1234)]\<rparr>) init = Some q \<and>
        timeInv (plainConfig\<lparr>ExportTimestamps := True\<rparr>) q) \<and>
   (\<exists>p. run (plainConfig\<lparr>ExportTimestamps := True\<rparr>) intOps (sort_key Name)
          [Event 5 \<lparr>evName = ''sub'', Timestamp = 3, Tags = [(''/interfaces/interface/name'', ''eth0'')],
                    Values = [(''in-octets'', Int64 1234)]\<rparr>,
           Scrape 6,
           Event 7 \<lparr>evName = ''sub'', Timestamp = 2, Tags = [(''/interfaces/interface/name'', ''eth0'')],
                    Values = [(''in-octets'', Int64 1200)]\<rparr>,
           Tick 8] init = Some p \<and>
        timeInv (plainConfig\<lparr>ExportTimestamps := True\<rparr>) p)"
  using timestamp_invariant [where cfg = "plainConfig\<lparr>ExportTimestamps := True\<rparr>"
      and ops = intOps and srt = "sort_key Name"
      and acts = "[Event 5 \<lparr>evName = ''sub'', Timestamp = 3,
                    Tags = [(''/interfaces/interface/name'', ''eth0'')],
                    Values = [(''in-octets'', Int64 1234)]\<rparr>,
           Scrape 6,
           Event 7 \<lparr>evName = ''sub'', Timestamp = 2, Tags = [(''/interfaces/interface/name'', ''eth0'')],
                    Values = [(''in-octets'', Int64 1200)]\<rparr>,
           Tick 8]"]
  by blast

subsection \<open>Label order in the store\<close>

lemma calculateKey_sorted:
  assumes "sortSlice srt"
  shows "sorted (map Name (snd (calculateKey srt arrs pm) (labels pm)))"
  using assms by (simp add: calculateKey_def Let_def sortSlice_def)

lemma calculateKey_other:
  "a \<noteq> labels pm \<Longrightarrow> snd (calculateKey srt arrs pm) a = arrs a"
  by (simp add: calculateKey_def Let_def)

lemma calculateKey_keeps_sorted:
  assumes "sortSlice srt" and "sorted (map Name (arrs a))"
  shows "sorted (map Name (snd (calculateKey srt arrs pm) a))"
  using assms calculateKey_sorted [OF assms(1), of arrs pm] calculateKey_other [of a pm srt arrs]
  by (cases "a = labels pm") simp_all

lemma workerStore_arrays:
  assumes srt: "sortSlice srt" and s: "labelsSorted p" and al: "list_all (\<lambda>(k, e). labels e < n) (entries p)"
    and lt: "labels pm < n" and q: "workerStore srt pm p = Some q"
  shows "labelsSorted q \<and> list_all (\<lambda>(k, e). labels e < n) (entries q)"
proof -
  let ?key = "fst (calculateKey srt (arrays p) pm)"
  let ?P = "\<lambda>(k, e). sorted (map Name (arrays q (labels e)))"
  let ?Q = "\<lambda>(k :: 64 word, e :: 'a promMetric). labels e < n"
  note w = workerStore_entries [OF q]
  have arr: "arrays q = snd (calculateKey srt (arrays p) pm)"
    using w by blast
  have a: "list_all ?P (entries p)"
    using s calculateKey_keeps_sorted [OF srt, of "arrays p" _ pm]
    by (auto simp: labelsSorted_def list_all_iff arr)
  have b: "?P (?key, pm)"
    using calculateKey_sorted [OF srt, of "arrays p" pm] by (simp add: arr)
  have c: "?Q (?key, pm)"
    using lt by simp
  from w have "entries q = entries p \<or> entries q = AList.update ?key pm (entries p)"
    by blast
  then have "list_all ?P (entries q) \<and> list_all ?Q (entries q)"
  proof
    assume "entries q = entries p"
    then show ?thesis using a al by (simp only:)
  next
    assume "entries q = AList.update ?key pm (entries p)"
    then show ?thesis using list_all_update [OF a b] list_all_update [OF al c] by (simp only:)
  qed
  then show ?thesis
    by (simp add: labelsSorted_def)
qed

lemma workerValues_arrays:
  assumes "sortSlice srt"
  shows "labelsSorted p \<Longrightarrow> list_all (\<lambda>(k, e). labels e < n) (entries p) \<Longrightarrow> a < n \<Longrightarrow>
     workerValues cfg ops srt now ev a vs p = Some q \<Longrightarrow>
     labelsSorted q \<and> list_all (\<lambda>(k, e). labels e < n) (entries q) \<and> nextArr q = nextArr p"
proof (induction vs arbitrary: p)
  case Nil
  then show ?case by simp
next
  case (Cons x vs)
  obtain vName val where x: "x = (vName, val)" by (cases x)
  show ?case
  proof (cases "workerValue cfg ops val")
    case None
    then show ?thesis using Cons x by simp
  next
    case (Some v)
    let ?pm = "workerMetric cfg now ev a vName v"
    from Cons.prems(4) Some x obtain p1 where p1: "workerStore srt ?pm p = Some p1"
      and r: "workerValues cfg ops srt now ev a vs p1 = Some q"
      by (auto split: option.splits)
    have "labels ?pm < n"
      using Cons.prems(3) by (simp add: workerMetric_def)
    from workerStore_arrays [OF assms Cons.prems(1,2) this p1]
    have "labelsSorted p1" and "list_all (\<lambda>(k, e). labels e < n) (entries p1)"
      by simp_all
    from Cons.IH [OF this Cons.prems(3) r] workerStore_entries [OF p1]
    show ?thesis by simp
  qed
qed

lemma worker_arrays:
  assumes srt: "sortSlice srt" and s: "labelsSorted p" and al: "allocated p"
    and q: "worker cfg ops srt now ev p = Some q"
  shows "labelsSorted q \<and> allocated q"
proof -
  let ?a = "nextArr p"
  let ?p1 = "p\<lparr>arrays := (arrays p)(?a := getLabels cfg ops ev), nextArr := Suc ?a\<rparr>"
  have lt: "\<forall>(k, e) \<in> set (entries p). labels e < ?a"
    using al by (simp add: allocated_def list_all_iff)
  then have s1: "labelsSorted ?p1"
    using s by (auto simp: labelsSorted_def list_all_iff)
  have al1: "list_all (\<lambda>(k, e). labels e < Suc ?a) (entries ?p1)"
    using lt by (auto simp: list_all_iff)
  have "workerValues cfg ops srt now ev ?a (Values ev) ?p1 = Some q"
    using q by (simp add: worker_def Let_def)
  from workerValues_arrays [OF srt s1 al1 _ this]
  show ?thesis by (simp add: allocated_def)
qed

lemma expireMetrics_arrays:
  assumes "timeInv cfg p" and "labelsSorted p" and "allocated p"
    and "expireMetrics cfg now p = Some q"
  shows "labelsSorted q \<and> allocated q"
  using expireMetrics_timeInv [OF assms(1), of now] assms(2,3,4)
  by (auto simp: labelsSorted_def allocated_def list_all_iff)

lemma step_arrays:
  assumes "sortSlice srt" and "timeInv cfg p" and "labelsSorted p" and "allocated p"
    and "step cfg ops srt a p = Some q"
  shows "labelsSorted q \<and> allocated q"
proof (cases a)
  case (Event now ev)
  then show ?thesis using worker_arrays [OF assms(1,3,4)] assms(5) by simp
next
  case (Tick now)
  then show ?thesis
    using expireMetrics_arrays [OF assms(2,3,4)] assms(3,4,5)
    by (auto simp: expireMetricsPeriodic_def split: if_splits)
next
  case (Scrape now)
  then show ?thesis
    using expireMetrics_arrays [OF assms(2,3,4)] assms(5)
    by (auto simp: Collect_def split: option.splits)
qed

lemma run_arrays:
  assumes "sortSlice srt"
  shows "timeInv cfg p \<Longrightarrow> labelsSorted p \<Longrightarrow> allocated p \<Longrightarrow>
    \<exists>q. run cfg ops srt acts p = Some q \<and> timeInv cfg q \<and> labelsSorted q \<and> allocated q"
proof (induction acts arbitrary: p)
  case Nil
  then show ?case by simp
next
  case (Cons a acts)
  from step_timeInv [OF Cons.prems(1)]
  obtain p1 where p1: "step cfg ops srt a p = Some p1" and t: "timeInv cfg p1" by blast
  from step_arrays [OF assms Cons.prems p1] have "labelsSorted p1" and "allocated p1"
    by simp_all
  from Cons.IH [OF t this] show ?case using p1 by simp
qed

lemma init_arrays: "labelsSorted init \<and> allocated init"
  by (simp add: labelsSorted_def allocated_def init_def)

lemma workerStore_msets:
  assumes "sortSlice srt" and "workerStore srt pm p = Some q"
  shows "mset (arrays q a) = mset (arrays p a) \<and> nextArr q = nextArr p"
  using workerStore_entries [OF assms(2)] calculateKey_mset [OF assms(1), of "arrays p" pm a]
  by simp

lemma workerValues_msets:
  assumes "sortSlice srt"
  shows "workerValues cfg ops srt now ev b vs p = Some q \<Longrightarrow>
     mset (arrays q a) = mset (arrays p a) \<and> nextArr q = nextArr p"
proof (induction vs arbitrary: p)
  case Nil
  then show ?case by simp
next
  case (Cons x vs)
  obtain vName val where x: "x = (vName, val)" by (cases x)
  show ?case
  proof (cases "workerValue cfg ops val")
    case None
    then show ?thesis using Cons x by simp
  next
    case (Some v)
    from Cons.prems Some x obtain p1
      where p1: "workerStore srt (workerMetric cfg now ev b vName v) p = Some p1"
        and r: "workerValues cfg ops srt now ev b vs p1 = Some q"
      by (auto split: option.splits)
    from Cons.IH [OF r] workerStore_msets [OF assms p1, of a] show ?thesis by simp
  qed
qed

lemma worker_msets:
  assumes "sortSlice srt" and "worker cfg ops srt now ev p = Some q"
  shows "nextArr q = Suc (nextArr p) \<and>
     mset (arrays q a) = (if a = nextArr p then mset (getLabels cfg ops ev) else mset (arrays p a))"
  using workerValues_msets [OF assms(1), of cfg ops now ev "nextArr p" "Values ev"
      "p\<lparr>arrays := (arrays p)(nextArr p := getLabels cfg ops ev), nextArr := Suc (nextArr p)\<rparr>" q a]
    assms(2)
  by (simp add: worker_def Let_def)

lemma expireMetrics_frame:
  "expireMetrics cfg now p = Some q \<Longrightarrow> arrays q = arrays p \<and> nextArr q = nextArr p"
  by (auto simp: expireMetrics_def split: if_splits option.splits)

lemma step_msets:
  assumes "sortSlice srt" and "step cfg ops srt act p = Some q"
    and "\<forall>a < nextArr p. mset (arrays p a) \<in> M"
  shows "\<forall>a < nextArr q. mset (arrays q a) \<in> M \<union> mset ` set (eventLabels cfg ops [act])"
proof (cases act)
  case (Event now ev)
  then have w: "worker cfg ops srt now ev p = Some q" using assms(2) by simp
  show ?thesis
  proof (intro allI impI)
    fix a assume "a < nextArr q"
    with worker_msets [OF assms(1) w, of a] assms(3) Event
    show "mset (arrays q a) \<in> M \<union> mset ` set (eventLabels cfg ops [act])"
      by (cases "a = nextArr p") auto
  qed
next
  case (Tick now)
  then show ?thesis
    using assms(2,3) expireMetrics_frame [of cfg now p q]
    by (auto simp: expireMetricsPeriodic_def split: if_splits)
next
  case (Scrape now)
  then show ?thesis
    using assms(2,3) expireMetrics_frame [of cfg now p]
    by (auto simp: Collect_def split: option.splits)
qed

lemma eventLabels_Cons:
  "mset ` set (eventLabels cfg ops (act # acts))
     = mset ` set (eventLabels cfg ops [act]) \<union> mset ` set (eventLabels cfg ops acts)"
  by (cases act) auto

lemma run_msets:
  assumes "sortSlice srt"
  shows "run cfg ops srt acts p = Some q \<Longrightarrow> \<forall>a < nextArr p. mset (arrays p a) \<in> M \<Longrightarrow>
     \<forall>a < nextArr q. mset (arrays q a) \<in> M \<union> mset ` set (eventLabels cfg ops acts)"
proof (induction acts arbitrary: p M)
  case Nil
  then show ?case by simp
next
  case (Cons act acts)
  from Cons.prems(1) obtain p1 where p1: "step cfg ops srt act p = Some p1"
    and r: "run cfg ops srt acts p1 = Some q"
    by (auto split: option.splits)
  note ih = Cons.IH [OF r step_msets [OF assms p1 Cons.prems(2)]]
  show ?case
  proof (intro allI impI)
    fix a assume "a < nextArr q"
    with ih have "mset (arrays q a)
        \<in> M \<union> (mset ` set (eventLabels cfg ops [act]) \<union> mset ` set (eventLabels cfg ops acts))"
      by blast
    then show "mset (arrays q a) \<in> M \<union> mset ` set (eventLabels cfg ops (act # acts))"
      by (subst eventLabels_Cons)
  qed
qed

lemma run_labelsFrom:
  assumes "sortSlice srt" and "run cfg ops srt acts init = Some q" and "allocated q"
  shows "labelsFrom (eventLabels cfg ops acts) q"
proof -
  have "\<forall>a < nextArr (init :: 'a PrometheusOutput). mset (arrays (init :: 'a PrometheusOutput) a) \<in> {}"
    by (simp add: init_def)
  from run_msets [OF assms(1,2) this]
  have "\<forall>a < nextArr q. mset (arrays q a) \<in> mset ` set (eventLabels cfg ops acts)"
    by simp
  then show ?thesis
    using assms(3) by (fastforce simp: labelsFrom_def allocated_def list_all_iff list_ex_iff)
qed

text \<open>
  C10: \<open>calculateKey\<close> sorts the sample's label array in place: afterwards the array is
  ordered by name and a permutation of what it was, and every other array is as it was.
  After every run from the empty store the label array of every entry is ordered by name
  and a permutation of the labels of one of the run's events, and so is that of every
  sample a following \<open>Collect\<close> hands out.
\<close>

theorem labels_sorted:
  fixes ops :: "'f float_ops"
  assumes "sortSlice srt"
  shows "sorted (map Name (snd (calculateKey srt arrs pm) (labels pm))) \<and>
    mset (snd (calculateKey srt arrs pm) (labels pm)) = mset (arrs (labels pm)) \<and>
    (\<forall>a. a \<noteq> labels pm \<longrightarrow> snd (calculateKey srt arrs pm) a = arrs a) \<and>
    (\<exists>p. run cfg ops srt acts init = Some p \<and> labelsSorted p \<and>
         labelsFrom (eventLabels cfg ops acts) p \<and>
         (\<exists>q ms. Collect cfg now p = Some (q, ms) \<and>
                 list_all (\<lambda>e. sorted (map Name (arrays q (labels e))) \<and>
                              list_ex (\<lambda>l. mset (arrays q (labels e)) = mset l)
                                (eventLabels cfg ops acts)) ms))"
proof -
  from run_arrays [OF assms init_timeInv] init_arrays
  obtain p :: "'f PrometheusOutput" where p: "run cfg ops srt acts init = Some p"
    and inv: "timeInv cfg p" "labelsSorted p" "allocated p"
    by blast
  have from_p: "labelsFrom (eventLabels cfg ops acts) p"
    using assms p inv(3) by (rule run_labelsFrom)
  from expireMetrics_timeInv [OF inv(1), of now]
  obtain q where q: "expireMetrics cfg now p = Some q"
    and sub: "set (entries q) \<subseteq> set (entries p)" and arr: "arrays q = arrays p"
    by blast
  from expireMetrics_arrays [OF inv q] have "labelsSorted q" by simp
  moreover have "labelsFrom (eventLabels cfg ops acts) q"
    using from_p sub arr by (auto simp: labelsFrom_def list_all_iff)
  ultimately have "list_all (\<lambda>e. sorted (map Name (arrays q (labels e))) \<and>
                              list_ex (\<lambda>l. mset (arrays q (labels e)) = mset l)
                                (eventLabels cfg ops acts)) (map snd (entries q))"
    by (auto simp: labelsSorted_def labelsFrom_def list_all_iff)
  then have c: "\<exists>q ms. Collect cfg now p = Some (q, ms) \<and>
                 list_all (\<lambda>e. sorted (map Name (arrays q (labels e))) \<and>
                              list_ex (\<lambda>l. mset (arrays q (labels e)) = mset l)
                                (eventLabels cfg ops acts)) ms"
    using q by (simp add: Collect_def)
  have "\<forall>a. a \<noteq> labels pm \<longrightarrow> snd (calculateKey srt arrs pm) a = arrs a"
    by (simp add: calculateKey_other)
  then show ?thesis
    using p inv(2) from_p c calculateKey_sorted [OF assms, of arrs pm]
      calculateKey_mset [OF assms, of arrs pm "labels pm"]
    by blast
qed

theorem labels_sorted_witness:
  "sortSlice (sort_key Name) \<and>
   sorted (map Name (snd (calculateKey (sort_key Name)
       (\<lambda>a. [\<lparr>Name = ''source'', Value = ''r1''\<rparr>, \<lparr>Name = ''name'', Value = ''eth0''\<rparr>])
       \<lparr>name = ''in_octets'', labels = 0, time = None, pvalue = (1::int), addedAt = 5\<rparr>) 0)) \<and>
   mset (snd (calculateKey (sort_key Name)
       (\<lambda>a. [\<lparr>Name = ''source'', Value = ''r1''\<rparr>, \<lparr>Name = ''name'', Value = ''eth0''\<rparr>])
       \<lparr>name = ''in_octets'', labels = 0, time = None, pvalue = (1::int), addedAt = 5\<rparr>) 0)
     = mset [\<lparr>Name = ''source'', Value = ''r1''\<rparr>, \<lparr>Name = ''name'', Value = ''eth0''\<rparr>] \<and>
   (\<exists>p. run plainConfig intOps (sort_key Name)
          [Event 5 \<lparr>evName = ''sub'', Timestamp = 3,
                    Tags = [(''source'', ''r1''), (''/interfaces/interface/name'', ''eth0'')],
                    Values = [(''out-octets'', Int64 7), (''in-octets'', Int64 1234)]\<rparr>]
          init = Some p \<and>
        labelsSorted p \<and>
        labelsFrom
          [getLabels plainConfig intOps
             \<lparr>evName = ''sub'', Timestamp = 3,
              Tags = [(''source'', ''r1''), (''/interfaces/interface/name'', ''eth0'')],
              Values = [(''out-octets'', Int64 7), (''in-octets'', Int64 1234)]\<rparr>] p)"
  using sortSlice_sort_key
    labels_sorted [OF sortSlice_sort_key, where cfg = plainConfig and ops = intOps and now = 6
      and arrs = "\<lambda>a. [\<lparr>Name = ''source'', Value = ''r1''\<rparr>, \<lparr>Name = ''name'', Value = ''eth0''\<rparr>]"
      and pm = "\<lparr>name = ''in_octets'', labels = 0, time = None, pvalue = (1::int), addedAt = 5\<rparr>"
      and acts = "[Event 5 \<lparr>evName = ''sub'', Timestamp = 3,
                    Tags = [(''source'', ''r1''), (''/interfaces/interface/name'', ''eth0'')],
                    Values = [(''out-octets'', Int64 7), (''in-octets'', Int64 1234)]\<rparr>]"]
  by auto

end
